theory Spec2Isabelle
  imports Main
begin

section \<open>Data model (models.ts)\<close>

text \<open>
  The interfaces of \<^verbatim>\<open>models.ts\<close> as records. A field whose name is taken in HOL or is
  shared by two interfaces carries a suffix: \<^verbatim>\<open>id\<close> is \<open>id_p\<close> in a player and \<open>id_r\<close> in a
  room, \<^verbatim>\<open>playerId\<close> and \<^verbatim>\<open>round\<close> are \<open>playerId_s\<close>, \<open>round_s\<close> in a sentence and
  \<open>playerId_d\<close>, \<open>round_d\<close> in a drawing. Round numbers and the presentation index are
  JavaScript numbers; the model takes their integer values. \<^verbatim>\<open>createdAt\<close> is the clock
  reading at creation, a natural number.
\<close>

datatype GameState = Lobby | Writing | Drawing | Results

record GamePlayer =
  id_p :: string
  nickname :: string
  profilePic :: string
  isHost :: bool
  isReady :: bool

record Sentence =
  playerId_s :: string
  text_s :: string
  round_s :: int

record Drawing =
  playerId_d :: string
  imageData :: string
  round_d :: int

record PresentationMode =
  active :: bool
  currentIndex :: int

record GameRoom =
  id_r :: string
  code :: string
  players :: "GamePlayer list"
  gameState :: GameState
  currentRound :: int
  maxRounds :: int
  createdAt :: nat
  locked :: bool
  sentences :: "Sentence list"
  drawings :: "Drawing list"
  presentationMode :: PresentationMode

text \<open>
  \<^verbatim>\<open>rooms: Map<string, GameRoom>\<close>. A JavaScript Map iterates in insertion order and holds
  one entry per key. The only insertion is \<^verbatim>\<open>rooms.set(roomId, room)\<close> with
  \<^verbatim>\<open>room.id = roomId\<close>, and no handler assigns \<^verbatim>\<open>room.id\<close>, so an entry's key is the
  \<open>id_r\<close> of its room: the store is the list of the Map's values in insertion order.
  A handler holds a room by reference; the model holds its position in that list.
\<close>

type_synonym store = "GameRoom list"

section \<open>What a handler does besides changing the store\<close>

text \<open>
  \<open>Only c\<close> is \<^verbatim>\<open>socket.emit\<close> on connection \<open>c\<close>, \<open>Group g\<close> is \<^verbatim>\<open>io.to(g).emit\<close>,
  \<open>Others c g\<close> is \<^verbatim>\<open>socket.to(g).emit\<close> (the group without the sender) and \<open>Everyone\<close> is
  \<^verbatim>\<open>io.emit\<close>. The groups are kept by the transport; the handlers ask it to add or remove
  a connection: \<open>Join c g\<close> is \<^verbatim>\<open>socket.join(g)\<close> and \<open>Leave c g\<close> is \<^verbatim>\<open>socket.leave(g)\<close> on
  connection \<open>c\<close>. \<open>LeaveIfConnected\<close> is the kick handler's
  \<^verbatim>\<open>io.sockets.sockets.get(playerId)\<close> followed by \<^verbatim>\<open>leave\<close> when the socket exists.
\<close>

datatype target = Only string | Group string | Others string string | Everyone

datatype message =
    RoomCreated GameRoom
  | RoomJoined GameRoom
  | PlayerJoined string string string
  | PlayerLeft string GameRoom
  | RoomUpdated GameRoom
  | GameStarted GameRoom
  | PhaseChanged GameState
  | PlayerKicked
  | RoomLockChanged string bool
  | PresentationStarted PresentationMode
  | ResultChanged PresentationMode
  | PresentationEnded
  | GameReset
  | ActiveRooms "(string \<times> nat \<times> bool) list"
  | Error string

datatype effect =
    Emit target message
  | Join string string
  | Leave string string
  | LeaveIfConnected string string

text \<open>
  The inbound events. \<open>CreateRoom\<close> carries, after the payload, what the handler reads from
  its environment: the codes that \<^verbatim>\<open>Math.random\<close> draws in \<^verbatim>\<open>generateRoomCode\<close>, in order,
  the value of \<^verbatim>\<open>uuidv4()\<close> and the clock. \<open>UpdateRoomSettings\<close> carries
  \<^verbatim>\<open>settings.maxRounds\<close>, \<open>None\<close> when the field is absent.
\<close>

datatype event =
    Connect
  | CreateRoom string string "string list" string nat
  | JoinRoom string string string
  | LeaveRoom
  | ToggleReady
  | StartGame
  | SubmitSentence string
  | SubmitDrawing string
  | UpdateRoomSettings "int option"
  | KickPlayer string
  | ToggleRoomLock
  | StartPresentation
  | ShowResult int
  | EndPresentation
  | ResetGame
  | GetActiveRooms
  | Disconnect

section \<open>Helpers of socket.ts\<close>

text \<open>\<^verbatim>\<open>Array.prototype.findIndex\<close>; \<open>None\<close> is the result \<^verbatim>\<open>-1\<close>.\<close>

fun findIndex :: "('a \<Rightarrow> bool) \<Rightarrow> 'a list \<Rightarrow> nat option" where
  "findIndex P [] = None"
| "findIndex P (x # xs) = (if P x then Some 0 else map_option Suc (findIndex P xs))"

text \<open>\<^verbatim>\<open>xs.splice(i, 1)\<close>.\<close>

definition splice1 :: "nat \<Rightarrow> 'a list \<Rightarrow> 'a list" where
  "splice1 i xs = take i xs @ drop (Suc i) xs"

text \<open>
  \<^verbatim>\<open>const i = xs.findIndex(P); if (i !== -1) xs.splice(i, 1)\<close>, as the leave, kick and
  disconnect handlers write it.
\<close>

definition removeAt :: "('a \<Rightarrow> bool) \<Rightarrow> 'a list \<Rightarrow> 'a list" where
  "removeAt P xs = (case findIndex P xs of None \<Rightarrow> xs | Some i \<Rightarrow> splice1 i xs)"

text \<open>
  An assignment through the reference that \<^verbatim>\<open>xs.find(P)\<close> returned: the first element
  that satisfies \<open>P\<close> is changed in place.
\<close>

fun updateFirst :: "('a \<Rightarrow> bool) \<Rightarrow> ('a \<Rightarrow> 'a) \<Rightarrow> 'a list \<Rightarrow> 'a list" where
  "updateFirst P f [] = []"
| "updateFirst P f (x # xs) = (if P x then f x # xs else x # updateFirst P f xs)"

definition getActiveRooms :: "store \<Rightarrow> (string \<times> nat \<times> bool) list" where
  "getActiveRooms s =
     map (\<lambda>room. (code room, length (players room), locked room))
       (filter (\<lambda>room. gameState room = Lobby) s)"

text \<open>\<^verbatim>\<open>findRoomByCode\<close>: the first room with the code, with its position.\<close>

fun findRoomByCode :: "store \<Rightarrow> string \<Rightarrow> (nat \<times> GameRoom) option" where
  "findRoomByCode [] c = None"
| "findRoomByCode (room # rs) c =
     (if code room = c then Some (0, room)
      else map_option (\<lambda>(i, r). (Suc i, r)) (findRoomByCode rs c))"

text \<open>
  \<^verbatim>\<open>findPlayerRoom\<close>: the first room, in store order, one of whose players has the
  connection's id, with its position and the first such player.
\<close>

fun findPlayerRoom :: "store \<Rightarrow> string \<Rightarrow> (nat \<times> GameRoom \<times> GamePlayer) option" where
  "findPlayerRoom [] c = None"
| "findPlayerRoom (room # rs) c =
     (case find (\<lambda>p. id_p p = c) (players room) of
        Some player \<Rightarrow> Some (0, room, player)
      | None \<Rightarrow> map_option (\<lambda>(i, r, p). (Suc i, r, p)) (findPlayerRoom rs c))"

text \<open>
  \<^verbatim>\<open>generateRoomCode\<close> draws a code and calls itself again while the code is in use. The
  draws are the list; \<open>None\<close> is the run in which every draw collides, which in the source
  ends the recursion with a RangeError that the handler's \<^verbatim>\<open>catch\<close> receives.
\<close>

fun generateRoomCode :: "store \<Rightarrow> string list \<Rightarrow> string option" where
  "generateRoomCode s [] = None"
| "generateRoomCode s (d # ds) =
     (if findRoomByCode s d \<noteq> None then generateRoomCode s ds else Some d)"

text \<open>
  \<^verbatim>\<open>rooms.set(k, room)\<close> and \<^verbatim>\<open>rooms.delete(k)\<close> on the Map. Setting a key that is in use
  overwrites its entry in place, which is what the create-room handler would do if
  \<^verbatim>\<open>uuidv4()\<close> ever repeated an id.
\<close>

definition rooms_set :: "string \<Rightarrow> GameRoom \<Rightarrow> store \<Rightarrow> store" where
  "rooms_set k room s =
     (case findIndex (\<lambda>r. id_r r = k) s of None \<Rightarrow> s @ [room] | Some i \<Rightarrow> s[i := room])"

definition rooms_delete :: "string \<Rightarrow> store \<Rightarrow> store" where
  "rooms_delete k s = filter (\<lambda>r. id_r r \<noteq> k) s"

section \<open>The handlers of initializeSocketEvents\<close>

definition emitActiveRooms :: "string \<Rightarrow> store \<Rightarrow> effect" where
  "emitActiveRooms c s = Emit (Only c) (ActiveRooms (getActiveRooms s))"

definition emitActiveRoomsToAll :: "store \<Rightarrow> effect" where
  "emitActiveRoomsToAll s = Emit Everyone (ActiveRooms (getActiveRooms s))"

definition createRoom ::
  "store \<Rightarrow> string \<Rightarrow> string \<Rightarrow> string \<Rightarrow> string list \<Rightarrow> string \<Rightarrow> nat \<Rightarrow> store \<times> effect list" where
  "createRoom s c nick pic draws roomId now =
     (case generateRoomCode s draws of
        None \<Rightarrow> (s, [Emit (Only c) (Error ''Failed to create room'')])
      | Some roomCode \<Rightarrow>
          let room = \<lparr> id_r = roomId, code = roomCode,
                       players = [\<lparr> id_p = c, nickname = nick, profilePic = pic,
                                    isHost = True, isReady = False \<rparr>],
                       gameState = Lobby, currentRound = 0, maxRounds = 3,
                       createdAt = now, locked = False, sentences = [], drawings = [],
                       presentationMode = \<lparr> active = False, currentIndex = 0 \<rparr> \<rparr>;
              s' = rooms_set roomId room s
          in (s', [Join c roomId, Emit (Only c) (RoomCreated room), emitActiveRoomsToAll s']))"

definition joinRoom :: "store \<Rightarrow> string \<Rightarrow> string \<Rightarrow> string \<Rightarrow> string \<Rightarrow> store \<times> effect list" where
  "joinRoom s c roomCode nick pic =
     (case findRoomByCode s roomCode of
        None \<Rightarrow> (s, [Emit (Only c) (Error ''Room not found'')])
      | Some (i, room) \<Rightarrow>
          if locked room then (s, [Emit (Only c) (Error ''Room is locked'')])
          else if gameState room \<noteq> Lobby then
            (s, [Emit (Only c) (Error ''Game has already started'')])
          else
            let room' = room \<lparr> players := players room @
                                 [\<lparr> id_p = c, nickname = nick, profilePic = pic,
                                    isHost = False, isReady = False \<rparr>] \<rparr>;
                s' = s[i := room']
            in (s', [Join c (id_r room), Emit (Only c) (RoomJoined room'),
                     Emit (Others c (id_r room)) (PlayerJoined c nick pic),
                     emitActiveRoomsToAll s']))"

text \<open>
  The body shared by the leave-room and disconnect handlers, which differ only in the
  \<^verbatim>\<open>socket.leave(room.id)\<close> that leave-room makes; \<open>pre\<close> is that call or nothing.
\<close>

definition removeCaller :: "effect list \<Rightarrow> store \<Rightarrow> string \<Rightarrow> nat \<Rightarrow> GameRoom \<Rightarrow> GamePlayer \<Rightarrow> store \<times> effect list" where
  "removeCaller pre s c i room player =
     (let ps = removeAt (\<lambda>p. id_p p = c) (players room)
      in if length ps = 0 then
           (let s' = rooms_delete (id_r room) (s[i := room \<lparr> players := ps \<rparr>])
            in (s', pre @ [emitActiveRoomsToAll s']))
         else
           (let ps' = (if isHost player \<and> length ps > 0
                       then ps[0 := (ps ! 0) \<lparr> isHost := True \<rparr>] else ps);
                room' = room \<lparr> players := ps' \<rparr>;
                s' = s[i := room']
            in (s', pre @ [Emit (Group (id_r room)) (PlayerLeft c room'),
                           emitActiveRoomsToAll s'])))"

definition leaveRoom :: "store \<Rightarrow> string \<Rightarrow> store \<times> effect list" where
  "leaveRoom s c =
     (case findPlayerRoom s c of
        None \<Rightarrow> (s, [])
      | Some (i, room, player) \<Rightarrow> removeCaller [Leave c (id_r room)] s c i room player)"

definition disconnect :: "store \<Rightarrow> string \<Rightarrow> store \<times> effect list" where
  "disconnect s c =
     (case findPlayerRoom s c of
        None \<Rightarrow> (s, [])
      | Some (i, room, player) \<Rightarrow> removeCaller [] s c i room player)"

definition toggleReady :: "store \<Rightarrow> string \<Rightarrow> store \<times> effect list" where
  "toggleReady s c =
     (case findPlayerRoom s c of
        None \<Rightarrow> (s, [])
      | Some (i, room, player) \<Rightarrow>
          let room' = room \<lparr> players :=
                        updateFirst (\<lambda>p. id_p p = c) (\<lambda>p. p \<lparr> isReady := \<not> isReady p \<rparr>)
                          (players room) \<rparr>
          in (s[i := room'], [Emit (Group (id_r room)) (RoomUpdated room')]))"

definition startGame :: "store \<Rightarrow> string \<Rightarrow> store \<times> effect list" where
  "startGame s c =
     (case findPlayerRoom s c of
        None \<Rightarrow> (s, [])
      | Some (i, room, player) \<Rightarrow>
          if \<not> isHost player then
            (s, [Emit (Only c) (Error ''Only the host can start the game'')])
          else if \<not> list_all (\<lambda>p. isReady p \<or> id_p p = id_p player) (players room) then
            (s, [Emit (Only c) (Error ''Not all players are ready'')])
          else if length (players room) < 2 then
            (s, [Emit (Only c) (Error ''Need at least 2 players to start'')])
          else
            let room' = room \<lparr> gameState := Writing, currentRound := 1 \<rparr>;
                s' = s[i := room']
            in (s', [Emit (Group (id_r room)) (GameStarted room'), emitActiveRoomsToAll s']))"

definition submitSentence :: "store \<Rightarrow> string \<Rightarrow> string \<Rightarrow> store \<times> effect list" where
  "submitSentence s c txt =
     (case findPlayerRoom s c of
        None \<Rightarrow> (s, [])
      | Some (i, room, player) \<Rightarrow>
          if gameState room \<noteq> Writing then
            (s, [Emit (Only c) (Error ''Cannot submit sentence in current game state'')])
          else
            let room1 = room \<lparr> sentences := sentences room @
                          [\<lparr> playerId_s = c, text_s = txt, round_s = currentRound room \<rparr>] \<rparr>;
                submittedCount =
                  length (filter (\<lambda>x. round_s x = currentRound room1) (sentences room1))
            in if submittedCount = length (players room1) then
                 (let room2 = room1 \<lparr> gameState := Drawing \<rparr>
                  in (s[i := room2],
                      [Emit (Group (id_r room)) (PhaseChanged Drawing),
                       Emit (Group (id_r room)) (RoomUpdated room2)]))
               else (s[i := room1], [Emit (Group (id_r room)) (RoomUpdated room1)]))"

definition submitDrawing :: "store \<Rightarrow> string \<Rightarrow> string \<Rightarrow> store \<times> effect list" where
  "submitDrawing s c img =
     (case findPlayerRoom s c of
        None \<Rightarrow> (s, [])
      | Some (i, room, player) \<Rightarrow>
          if gameState room \<noteq> Drawing then
            (s, [Emit (Only c) (Error ''Cannot submit drawing in current game state'')])
          else
            let room1 = room \<lparr> drawings := drawings room @
                          [\<lparr> playerId_d = c, imageData = img, round_d = currentRound room \<rparr>] \<rparr>;
                submittedCount =
                  length (filter (\<lambda>x. round_d x = currentRound room1) (drawings room1))
            in if submittedCount = length (players room1) then
                 (if currentRound room1 \<ge> maxRounds room1 then
                    (let room2 = room1 \<lparr> gameState := Results \<rparr>
                     in (s[i := room2],
                         [Emit (Group (id_r room)) (PhaseChanged Results),
                          Emit (Group (id_r room)) (RoomUpdated room2)]))
                  else
                    (let room2 = room1 \<lparr> currentRound := currentRound room1 + 1,
                                         gameState := Writing \<rparr>
                     in (s[i := room2],
                         [Emit (Group (id_r room)) (PhaseChanged Writing),
                          Emit (Group (id_r room)) (RoomUpdated room2)])))
               else (s[i := room1], [Emit (Group (id_r room)) (RoomUpdated room1)]))"

text \<open>
  \<^verbatim>\<open>if (settings.maxRounds)\<close> is false for an absent field and for \<open>0\<close>.
\<close>

definition updateRoomSettings :: "store \<Rightarrow> string \<Rightarrow> int option \<Rightarrow> store \<times> effect list" where
  "updateRoomSettings s c mr =
     (case findPlayerRoom s c of
        None \<Rightarrow> (s, [])
      | Some (i, room, player) \<Rightarrow>
          if \<not> isHost player then
            (s, [Emit (Only c) (Error ''Only the host can update room settings'')])
          else
            let room' = (case mr of
                           None \<Rightarrow> room
                         | Some n \<Rightarrow> if n \<noteq> 0 then room \<lparr> maxRounds := n \<rparr> else room)
            in (s[i := room'], [Emit (Group (id_r room)) (RoomUpdated room')]))"

definition kickPlayer :: "store \<Rightarrow> string \<Rightarrow> string \<Rightarrow> store \<times> effect list" where
  "kickPlayer s c playerId =
     (case findPlayerRoom s c of
        None \<Rightarrow> (s, [])
      | Some (i, room, player) \<Rightarrow>
          if \<not> isHost player then
            (s, [Emit (Only c) (Error ''Only the host can kick players'')])
          else if find (\<lambda>p. id_p p = playerId) (players room) = None then
            (s, [Emit (Only c) (Error ''Player not found'')])
          else if playerId = c then
            (s, [Emit (Only c) (Error ''Cannot kick yourself'')])
          else
            let room' = room \<lparr> players := removeAt (\<lambda>p. id_p p = playerId) (players room) \<rparr>;
                s' = s[i := room']
            in (s', [Emit (Group playerId) PlayerKicked,
                     LeaveIfConnected playerId (id_r room),
                     Emit (Group (id_r room)) (RoomUpdated room'),
                     emitActiveRoomsToAll s']))"

definition toggleRoomLock :: "store \<Rightarrow> string \<Rightarrow> store \<times> effect list" where
  "toggleRoomLock s c =
     (case findPlayerRoom s c of
        None \<Rightarrow> (s, [])
      | Some (i, room, player) \<Rightarrow>
          if \<not> isHost player then
            (s, [Emit (Only c) (Error ''Only the host can lock/unlock the room'')])
          else
            let room' = room \<lparr> locked := \<not> locked room \<rparr>;
                s' = s[i := room']
            in (s', [Emit (Group (id_r room)) (RoomLockChanged (code room') (locked room')),
                     Emit (Group (id_r room)) (RoomUpdated room'),
                     emitActiveRoomsToAll s']))"

definition startPresentation :: "store \<Rightarrow> string \<Rightarrow> store \<times> effect list" where
  "startPresentation s c =
     (case findPlayerRoom s c of
        None \<Rightarrow> (s, [])
      | Some (i, room, player) \<Rightarrow>
          if \<not> isHost player then
            (s, [Emit (Only c) (Error ''Only the host can start presentation mode'')])
          else if gameState room \<noteq> Results then
            (s, [Emit (Only c) (Error ''Presentation mode only available in results phase'')])
          else
            let room' = room \<lparr> presentationMode := \<lparr> active = True, currentIndex = 0 \<rparr> \<rparr>
            in (s[i := room'],
                [Emit (Group (id_r room)) (PresentationStarted (presentationMode room'))]))"

definition showResult :: "store \<Rightarrow> string \<Rightarrow> int \<Rightarrow> store \<times> effect list" where
  "showResult s c index =
     (case findPlayerRoom s c of
        None \<Rightarrow> (s, [])
      | Some (i, room, player) \<Rightarrow>
          if \<not> isHost player then
            (s, [Emit (Only c) (Error ''Only the host can control the presentation'')])
          else if \<not> active (presentationMode room) then
            (s, [Emit (Only c) (Error ''Presentation mode not active'')])
          else
            let room' = room \<lparr> presentationMode :=
                                 (presentationMode room) \<lparr> currentIndex := index \<rparr> \<rparr>
            in (s[i := room'],
                [Emit (Group (id_r room)) (ResultChanged (presentationMode room'))]))"

definition endPresentation :: "store \<Rightarrow> string \<Rightarrow> store \<times> effect list" where
  "endPresentation s c =
     (case findPlayerRoom s c of
        None \<Rightarrow> (s, [])
      | Some (i, room, player) \<Rightarrow>
          if \<not> isHost player then
            (s, [Emit (Only c) (Error ''Only the host can end presentation mode'')])
          else if \<not> active (presentationMode room) then
            (s, [Emit (Only c) (Error ''Presentation mode not active'')])
          else
            let room' = room \<lparr> presentationMode := \<lparr> active = False, currentIndex = 0 \<rparr> \<rparr>
            in (s[i := room'], [Emit (Group (id_r room)) PresentationEnded]))"

definition resetGame :: "store \<Rightarrow> string \<Rightarrow> store \<times> effect list" where
  "resetGame s c =
     (case findPlayerRoom s c of
        None \<Rightarrow> (s, [])
      | Some (i, room, player) \<Rightarrow>
          if \<not> isHost player then
            (s, [Emit (Only c) (Error ''Only the host can reset the game'')])
          else
            let room' = room \<lparr> gameState := Lobby, currentRound := 0, sentences := [],
                               drawings := [],
                               presentationMode := \<lparr> active = False, currentIndex = 0 \<rparr>,
                               players := map (\<lambda>p. p \<lparr> isReady := False \<rparr>) (players room) \<rparr>;
                s' = s[i := room']
            in (s', [Emit (Group (id_r room)) GameReset,
                     Emit (Group (id_r room)) (RoomUpdated room'),
                     emitActiveRoomsToAll s']))"

text \<open>
  One inbound event of connection \<open>c\<close>, handled to completion: the store afterwards and
  what the handler emitted, in order.
\<close>

fun step :: "store \<Rightarrow> string \<Rightarrow> event \<Rightarrow> store \<times> effect list" where
  "step s c Connect = (s, [emitActiveRooms c s])"
| "step s c (CreateRoom nick pic draws roomId now) = createRoom s c nick pic draws roomId now"
| "step s c (JoinRoom roomCode nick pic) = joinRoom s c roomCode nick pic"
| "step s c LeaveRoom = leaveRoom s c"
| "step s c ToggleReady = toggleReady s c"
| "step s c StartGame = startGame s c"
| "step s c (SubmitSentence txt) = submitSentence s c txt"
| "step s c (SubmitDrawing img) = submitDrawing s c img"
| "step s c (UpdateRoomSettings mr) = updateRoomSettings s c mr"
| "step s c (KickPlayer playerId) = kickPlayer s c playerId"
| "step s c ToggleRoomLock = toggleRoomLock s c"
| "step s c StartPresentation = startPresentation s c"
| "step s c (ShowResult index) = showResult s c index"
| "step s c EndPresentation = endPresentation s c"
| "step s c ResetGame = resetGame s c"
| "step s c GetActiveRooms = (s, [emitActiveRooms c s])"
| "step s c Disconnect = disconnect s c"

text \<open>
  The store after a sequence of events, each with the connection it comes from, starting
  from the empty Map of a fresh process. The reachable stores are the values of \<open>run\<close>.
\<close>

fun run_from :: "store \<Rightarrow> (string \<times> event) list \<Rightarrow> store" where
  "run_from s [] = s"
| "run_from s ((c, e) # evs) = run_from (fst (step s c e)) evs"

definition run :: "(string \<times> event) list \<Rightarrow> store" where
  "run evs = run_from [] evs"

section \<open>Concrete runs\<close>

text \<open>
  Event sequences of a fresh process, used to evaluate the handlers: Alice creates a room
  and Bob joins it; Bob gets ready and Alice starts the game; both submit a sentence.
\<close>

definition scenario_lobby :: "(string \<times> event) list" where
  "scenario_lobby =
     [(''alice'', CreateRoom ''Alice'' ''a.png'' [''ABCD''] ''room-1'' 0),
      (''bob'', JoinRoom ''ABCD'' ''Bob'' ''b.png'')]"

definition scenario_ready :: "(string \<times> event) list" where
  "scenario_ready = scenario_lobby @ [(''bob'', ToggleReady)]"

definition scenario_writing :: "(string \<times> event) list" where
  "scenario_writing = scenario_ready @ [(''alice'', StartGame)]"

definition scenario_drawing :: "(string \<times> event) list" where
  "scenario_drawing =
     scenario_writing @ [(''alice'', SubmitSentence ''a''), (''bob'', SubmitSentence ''b'')]"

text \<open>
  Scenario C of the specification: the same game with \<^verbatim>\<open>maxRounds\<close> set to 1, in the
  drawing phase of round 1 after Alice's drawing. Scenario E: a room of three, created by
  Alice, then joined by Bob, then by Carol.
\<close>

definition scenario_last_drawing :: "(string \<times> event) list" where
  "scenario_last_drawing =
     scenario_lobby @
     [(''alice'', UpdateRoomSettings (Some 1)), (''bob'', ToggleReady), (''alice'', StartGame),
      (''alice'', SubmitSentence ''a''), (''bob'', SubmitSentence ''b''),
      (''alice'', SubmitDrawing ''x'')]"

definition scenario_three :: "(string \<times> event) list" where
  "scenario_three = scenario_lobby @ [(''carol'', JoinRoom ''ABCD'' ''Carol'' ''c.png'')]"

section \<open>Invariants of the store\<close>

text \<open>
  What every reachable store satisfies, as the proofs below establish: in each room the
  first player of the list is the host and no other player is, and no two rooms have the
  same id (the ids are the keys of the Map).
\<close>

definition host_first :: "GamePlayer list \<Rightarrow> bool" where
  "host_first ps =
     (case ps of [] \<Rightarrow> False | p # rest \<Rightarrow> isHost p \<and> list_all (\<lambda>q. \<not> isHost q) rest)"

definition store_ok :: "store \<Rightarrow> bool" where
  "store_ok s = (list_all (\<lambda>r. host_first (players r)) s \<and> distinct (map id_r s))"

text \<open>
  The events whose handlers do not look the caller up with \<^verbatim>\<open>findPlayerRoom\<close>: create-room
  and join-room.
\<close>

fun enters_room :: "event \<Rightarrow> bool" where
  "enters_room (CreateRoom nick pic draws roomId now) = True"
| "enters_room (JoinRoom roomCode nick pic) = True"
| "enters_room e = False"

text \<open>
  Three players; Alice kicks Bob, Carol leaves. Then Alice is alone in her room.
\<close>

definition scenario_alone :: "(string \<times> event) list" where
  "scenario_alone = scenario_three @ [(''alice'', KickPlayer ''bob''), (''carol'', LeaveRoom)]"

text \<open>
  Alice creates a room, Bob creates another, and Alice then joins Bob's room by its code.
\<close>

definition scenario_two_rooms :: "(string \<times> event) list" where
  "scenario_two_rooms =
     [(''alice'', CreateRoom ''Alice'' ''a.png'' [''ABCD''] ''room-1'' 0),
      (''bob'', CreateRoom ''Bob'' ''b.png'' [''WXYZ''] ''room-2'' 1),
      (''alice'', JoinRoom ''WXYZ'' ''Alice'' ''a.png'')]"

text \<open>
  Alice submits two sentences in the writing phase of round 1, Bob none. And the game of
  \<open>scenario_drawing\<close> played on to the drawing phase of round 2.
\<close>

definition scenario_double_submit :: "(string \<times> event) list" where
  "scenario_double_submit =
     scenario_writing @ [(''alice'', SubmitSentence ''a''), (''alice'', SubmitSentence ''b'')]"

definition scenario_round2_drawing :: "(string \<times> event) list" where
  "scenario_round2_drawing =
     scenario_drawing @
     [(''alice'', SubmitDrawing ''x''), (''bob'', SubmitDrawing ''y''),
      (''alice'', SubmitSentence ''c''), (''bob'', SubmitSentence ''d'')]"

section \<open>The transport's groups\<close>










section \<open>Facts about the helpers\<close>

lemma findIndex_Some:
  "findIndex P xs = Some k \<Longrightarrow> k < length xs \<and> P (xs ! k) \<and> (\<forall>j<k. \<not> P (xs ! j))"
proof (induction xs arbitrary: k)
  case Nil
  then show ?case by simp
next
  case (Cons x xs)
  show ?case
  proof (cases "P x")
    case True
    with Cons.prems show ?thesis by simp
  next
    case False
    with Cons.prems obtain k' where k': "findIndex P xs = Some k'" "k = Suc k'"
      by auto
    from Cons.IH[OF k'(1)] False k'(2) show ?thesis
      by (auto simp: less_Suc_eq_0_disj)
  qed
qed

lemma findIndex_None: "findIndex P xs = None \<longleftrightarrow> (\<forall>x\<in>set xs. \<not> P x)"
  by (induction xs) auto


lemma findPlayerRoom_Some:
  "findPlayerRoom s c = Some (i, room, player) \<Longrightarrow>
     i < length s \<and> s ! i = room \<and> find (\<lambda>p. id_p p = c) (players room) = Some player
     \<and> (\<forall>j<i. find (\<lambda>p. id_p p = c) (players (s ! j)) = None)"
proof (induction s arbitrary: i)
  case Nil
  then show ?case by simp
next
  case (Cons r rs)
  show ?case
  proof (cases "find (\<lambda>p. id_p p = c) (players r)")
    case (Some p)
    with Cons.prems show ?thesis by simp
  next
    case None
    with Cons.prems obtain i'
      where i': "findPlayerRoom rs c = Some (i', room, player)" "i = Suc i'"
      by auto
    from Cons.IH[OF i'(1)] None i'(2) show ?thesis
      by (auto simp: less_Suc_eq_0_disj)
  qed
qed

lemma findRoomByCode_Some:
  "findRoomByCode s k = Some (i, room) \<Longrightarrow> i < length s \<and> s ! i = room \<and> code room = k"
proof (induction s arbitrary: i)
  case Nil
  then show ?case by simp
next
  case (Cons r rs)
  then show ?case by (cases "code r = k") auto
qed

section \<open>Rejected events leave the store as it is\<close>

text \<open>
  C8. A kick-player event from a connection whose room (the one the player lookup finds)
  lists it as a player that is not the host: the handler's whole output is one error
  message to that connection, and the store afterwards is the store before, so the room
  record is the same and the target is still among its players.
\<close>

theorem kick_by_non_host_rejected:
  assumes "findPlayerRoom s c = Some (i, room, player)" and "\<not> isHost player"
  shows "step s c (KickPlayer t) =
           (s, [Emit (Only c) (Error ''Only the host can kick players'')])"
  using assms by (simp add: kickPlayer_def)

theorem kick_by_non_host_rejected_witness:
  "findPlayerRoom (run scenario_lobby) ''bob''
     = Some (0, run scenario_lobby ! 0, players (run scenario_lobby ! 0) ! 1)
   \<and> \<not> isHost (players (run scenario_lobby ! 0) ! 1)
   \<and> step (run scenario_lobby) ''bob'' (KickPlayer ''alice'')
       = (run scenario_lobby, [Emit (Only ''bob'') (Error ''Only the host can kick players'')])"
proof -
  have h1: "findPlayerRoom (run scenario_lobby) ''bob''
              = Some (0, run scenario_lobby ! 0, players (run scenario_lobby ! 0) ! 1)"
    by code_simp
  have h2: "\<not> isHost (players (run scenario_lobby ! 0) ! 1)"
    by code_simp
  from kick_by_non_host_rejected [OF h1 h2, of "''alice''"] h1 h2 show ?thesis
    by blast
qed

text \<open>
  C9. An end-presentation event from the host of its room while the room's presentation
  is not active: one error message to the caller, and the store, with the room and its
  presentation record, is unchanged.
\<close>

theorem end_presentation_inactive_rejected:
  assumes "findPlayerRoom s c = Some (i, room, player)" and "isHost player"
    and "\<not> active (presentationMode room)"
  shows "step s c EndPresentation =
           (s, [Emit (Only c) (Error ''Presentation mode not active'')])"
  using assms by (simp add: endPresentation_def)

theorem end_presentation_inactive_rejected_witness:
  "findPlayerRoom (run scenario_drawing) ''alice''
     = Some (0, run scenario_drawing ! 0, players (run scenario_drawing ! 0) ! 0)
   \<and> isHost (players (run scenario_drawing ! 0) ! 0)
   \<and> \<not> active (presentationMode (run scenario_drawing ! 0))
   \<and> step (run scenario_drawing) ''alice'' EndPresentation
       = (run scenario_drawing, [Emit (Only ''alice'') (Error ''Presentation mode not active'')])"
proof -
  have h1: "findPlayerRoom (run scenario_drawing) ''alice''
              = Some (0, run scenario_drawing ! 0, players (run scenario_drawing ! 0) ! 0)"
    by code_simp
  have h2: "isHost (players (run scenario_drawing ! 0) ! 0)"
    by code_simp
  have h3: "\<not> active (presentationMode (run scenario_drawing ! 0))"
    by code_simp
  from end_presentation_inactive_rejected [OF h1 h2 h3] h1 h2 h3 show ?thesis
    by blast
qed

section \<open>Submitting a drawing\<close>

text \<open>
  C6. A submit-drawing event from a player whose room is in the drawing phase appends a
  drawing tagged with the current round. When the drawings tagged with the current round,
  the new one included, are as many as the players: at \<open>currentRound \<ge> maxRounds\<close> the
  phase becomes results and the round stays; otherwise the round goes up by one and the
  phase becomes writing. When they are not as many, phase and round stay.
\<close>

theorem submit_drawing_effect:
  assumes fp: "findPlayerRoom s c = Some (i, room, player)"
    and ph: "gameState room = Drawing"
  shows "let room' = fst (step s c (SubmitDrawing img)) ! i;
             entry = \<lparr> playerId_d = c, imageData = img, round_d = currentRound room \<rparr>;
             tagged = length (filter (\<lambda>d. round_d d = currentRound room)
                                (drawings room @ [entry]))
         in drawings room' = drawings room @ [entry] \<and>
            (if tagged = length (players room) then
               (if currentRound room \<ge> maxRounds room
                then gameState room' = Results \<and> currentRound room' = currentRound room
                else gameState room' = Writing \<and> currentRound room' = currentRound room + 1)
             else gameState room' = Drawing \<and> currentRound room' = currentRound room)"
proof -
  from findPlayerRoom_Some[OF fp] have i: "i < length s" by simp
  show ?thesis using fp ph i
    by (simp add: submitDrawing_def Let_def)
qed

theorem submit_drawing_effect_witness:
  "findPlayerRoom (run scenario_last_drawing) ''bob''
     = Some (0, run scenario_last_drawing ! 0, players (run scenario_last_drawing ! 0) ! 1)
   \<and> gameState (run scenario_last_drawing ! 0) = Drawing
   \<and> maxRounds (run scenario_last_drawing ! 0) = 1
   \<and> currentRound (run scenario_last_drawing ! 0) = 1
   \<and> gameState (fst (step (run scenario_last_drawing) ''bob'' (SubmitDrawing ''y'')) ! 0) = Results
   \<and> currentRound (fst (step (run scenario_last_drawing) ''bob'' (SubmitDrawing ''y'')) ! 0) = 1"
proof -
  have h1: "findPlayerRoom (run scenario_last_drawing) ''bob''
     = Some (0, run scenario_last_drawing ! 0, players (run scenario_last_drawing ! 0) ! 1)"
    by code_simp
  have h2: "gameState (run scenario_last_drawing ! 0) = Drawing"
    by code_simp
  have h3: "maxRounds (run scenario_last_drawing ! 0) = 1"
    by code_simp
  have h4: "currentRound (run scenario_last_drawing ! 0) = 1"
    by code_simp
  have h5: "length (filter (\<lambda>d. round_d d = 1)
              (drawings (run scenario_last_drawing ! 0) @
                 [\<lparr> playerId_d = ''bob'', imageData = ''y'', round_d = 1 \<rparr>]))
            = length (players (run scenario_last_drawing ! 0))"
    by code_simp
  from submit_drawing_effect [OF h1 h2, of "''y''"] h3 h4 h5
  have "gameState (fst (step (run scenario_last_drawing) ''bob'' (SubmitDrawing ''y'')) ! 0) = Results
      \<and> currentRound (fst (step (run scenario_last_drawing) ''bob'' (SubmitDrawing ''y'')) ! 0) = 1"
    by (simp add: Let_def)
  with h1 h2 h3 h4 show ?thesis by blast
qed

section \<open>The host leaves\<close>





section \<open>The invariants are kept by every handler\<close>

lemma host_first_Cons: "host_first (p # rest) \<longleftrightarrow> isHost p \<and> (\<forall>q\<in>set rest. \<not> isHost q)"
  by (simp add: host_first_def list_all_iff)

lemma host_first_Nil: "\<not> host_first []"
  by (simp add: host_first_def)

lemma host_first_append: "host_first ps \<Longrightarrow> \<not> isHost q \<Longrightarrow> host_first (ps @ [q])"
  by (cases ps) (auto simp: host_first_Cons host_first_Nil)

lemma updateFirst_set:
  "x \<in> set (updateFirst P f xs) \<Longrightarrow> x \<in> set xs \<or> (\<exists>y\<in>set xs. x = f y)"
  by (induction xs) (auto split: if_splits)

lemma host_first_updateFirst:
  assumes "host_first ps" and "\<And>p. isHost (f p) = isHost p"
  shows "host_first (updateFirst P f ps)"
proof (cases ps)
  case Nil
  with assms show ?thesis by (simp add: host_first_Nil)
next
  case (Cons h t)
  with assms(1) have h: "isHost h" and t: "\<forall>q\<in>set t. \<not> isHost q"
    by (simp_all add: host_first_Cons)
  show ?thesis
  proof (cases "P h")
    case True
    with Cons h t assms(2) show ?thesis by (simp add: host_first_Cons)
  next
    case False
    have "\<forall>q\<in>set (updateFirst P f t). \<not> isHost q"
      using t assms(2) by (auto dest!: updateFirst_set)
    with False Cons h show ?thesis by (simp add: host_first_Cons)
  qed
qed

lemma host_first_map:
  assumes "host_first ps" and "\<And>p. isHost (f p) = isHost p"
  shows "host_first (map f ps)"
  using assms by (cases ps) (auto simp: host_first_Cons host_first_Nil)

lemma removeAt_Cons:
  "removeAt P (x # xs) = (if P x then xs else x # removeAt P xs)"
  by (cases "findIndex P xs") (simp_all add: removeAt_def splice1_def)

lemma removeAt_subset: "set (removeAt P xs) \<subseteq> set xs"
proof (induction xs)
  case Nil
  show ?case by (simp add: removeAt_def)
next
  case (Cons x xs)
  then show ?case by (auto simp: removeAt_Cons)
qed

lemma find_SomeD: "find P xs = Some x \<Longrightarrow> x \<in> set xs \<and> P x"
  by (induction xs) (auto split: if_splits)

lemma host_first_caller_removed:
  assumes hf: "host_first ps"
    and fnd: "find P ps = Some player"
    and ne: "removeAt P ps \<noteq> []"
  shows "host_first (if isHost player \<and> length (removeAt P ps) > 0
                     then (removeAt P ps)[0 := (removeAt P ps ! 0) \<lparr> isHost := True \<rparr>]
                     else removeAt P ps)"
proof (cases ps)
  case Nil
  with hf show ?thesis by (simp add: host_first_Nil)
next
  case (Cons h t)
  with hf have h: "isHost h" and t: "\<forall>q\<in>set t. \<not> isHost q"
    by (simp_all add: host_first_Cons)
  show ?thesis
  proof (cases "P h")
    case True
    with Cons fnd have pl: "player = h" by simp
    from True Cons have rm: "removeAt P ps = t" by (simp add: removeAt_Cons)
    with ne obtain a t' where t': "t = a # t'" by (cases t) auto
    with t have "\<forall>q\<in>set t'. \<not> isHost q" by simp
    then show ?thesis using rm t' pl h by (simp add: host_first_Cons)
  next
    case False
    with Cons fnd have "find P t = Some player" by simp
    from find_SomeD[OF this] t have nh: "\<not> isHost player" by blast
    from False Cons have rm: "removeAt P ps = h # removeAt P t" by (simp add: removeAt_Cons)
    have "\<forall>q\<in>set (removeAt P t). \<not> isHost q"
      using t removeAt_subset[of P t] by blast
    then show ?thesis using rm nh h by (simp add: host_first_Cons)
  qed
qed

lemma host_first_kicked:
  assumes hf: "host_first ps"
    and fnd: "find (\<lambda>p. id_p p = c) ps = Some player"
    and host: "isHost player"
    and other: "t \<noteq> c"
  shows "host_first (removeAt (\<lambda>p. id_p p = t) ps)"
proof (cases ps)
  case Nil
  with hf show ?thesis by (simp add: host_first_Nil)
next
  case (Cons h rest)
  with hf have h: "isHost h" and r: "\<forall>q\<in>set rest. \<not> isHost q"
    by (simp_all add: host_first_Cons)
  from find_SomeD[OF fnd] have "player \<in> set ps" "id_p player = c" by simp_all
  with Cons r host have "id_p h = c" by auto
  with other Cons have rm: "removeAt (\<lambda>p. id_p p = t) ps = h # removeAt (\<lambda>p. id_p p = t) rest"
    by (simp add: removeAt_Cons)
  have "\<forall>q\<in>set (removeAt (\<lambda>p. id_p p = t) rest). \<not> isHost q"
    using r removeAt_subset[of _ rest] by blast
  with rm h show ?thesis by (simp add: host_first_Cons)
qed

lemma host_first_one: "host_first ps \<Longrightarrow> length (filter isHost ps) = 1"
  by (cases ps) (auto simp: host_first_Cons host_first_Nil filter_empty_conv)

lemma map_id_update:
  "i < length s \<Longrightarrow> id_r r = id_r (s ! i) \<Longrightarrow> map id_r (s[i := r]) = map id_r s"
  by (simp add: map_update list_update_same_conv)

lemma store_ok_update:
  assumes "store_ok s" and "i < length s" and "id_r r = id_r (s ! i)"
    and "host_first (players r)"
  shows "store_ok (s[i := r])"
proof -
  have "\<forall>x\<in>set (s[i := r]). host_first (players x)"
    using assms(1,4) set_update_subset_insert[of s i r]
    by (auto simp: store_ok_def list_all_iff)
  moreover have "distinct (map id_r (s[i := r]))"
    using assms by (simp add: map_id_update store_ok_def)
  ultimately show ?thesis by (simp add: store_ok_def list_all_iff)
qed

lemma store_ok_nth: "store_ok s \<Longrightarrow> i < length s \<Longrightarrow> host_first (players (s ! i))"
  by (simp add: store_ok_def list_all_length)

lemma store_ok_set:
  assumes "store_ok s" and "id_r room = k" and "host_first (players room)"
  shows "store_ok (rooms_set k room s)"
proof (cases "findIndex (\<lambda>r. id_r r = k) s")
  case None
  then have "k \<notin> id_r ` set s" by (auto simp: findIndex_None)
  with assms None show ?thesis
    by (auto simp: rooms_set_def store_ok_def list_all_iff)
next
  case (Some i)
  from findIndex_Some[OF Some] have "i < length s" "id_r (s ! i) = k" by simp_all
  with assms Some show ?thesis
    by (simp add: rooms_set_def store_ok_update)
qed

lemma store_ok_delete_updated:
  assumes "store_ok s" and "i < length s" and "id_r (s ! i) = k" and "id_r x = k"
  shows "store_ok (rooms_delete k (s[i := x]))"
proof -
  have "\<forall>r\<in>set (rooms_delete k (s[i := x])). host_first (players r)"
    using assms(1,4) set_update_subset_insert[of s i x]
    by (auto simp: rooms_delete_def store_ok_def list_all_iff)
  moreover have "distinct (map id_r (rooms_delete k (s[i := x])))"
    using assms by (simp add: rooms_delete_def distinct_map_filter map_id_update store_ok_def)
  ultimately show ?thesis by (simp add: store_ok_def list_all_iff)
qed

lemma store_ok_createRoom:
  "store_ok s \<Longrightarrow> store_ok (fst (createRoom s c nick pic draws roomId now))"
  by (cases "generateRoomCode s draws")
     (simp_all add: createRoom_def Let_def store_ok_set host_first_Cons)

lemma store_ok_joinRoom:
  assumes "store_ok s"
  shows "store_ok (fst (joinRoom s c roomCode nick pic))"
proof (cases "findRoomByCode s roomCode")
  case None
  with assms show ?thesis by (simp add: joinRoom_def)
next
  case (Some ir)
  obtain i room where ir: "ir = (i, room)" by (cases ir)
  from findRoomByCode_Some[OF Some[unfolded ir]]
  have i: "i < length s" "s ! i = room" by simp_all
  from store_ok_nth[OF assms i(1)] i(2) have "host_first (players room)" by simp
  then have "host_first (players room @
      [\<lparr> id_p = c, nickname = nick, profilePic = pic, isHost = False, isReady = False \<rparr>])"
    by (rule host_first_append) simp
  with assms i Some ir show ?thesis
    by (simp add: joinRoom_def Let_def store_ok_update)
qed

lemma store_ok_removeCaller:
  assumes ok: "store_ok s"
    and fp: "findPlayerRoom s c = Some (i, room, player)"
  shows "store_ok (fst (removeCaller pre s c i room player))"
proof -
  from findPlayerRoom_Some[OF fp]
  have i: "i < length s" "s ! i = room"
    and fnd: "find (\<lambda>p. id_p p = c) (players room) = Some player" by simp_all
  from store_ok_nth[OF ok i(1)] i(2) have hf: "host_first (players room)" by simp
  show ?thesis
  proof (cases "removeAt (\<lambda>p. id_p p = c) (players room) = []")
    case True
    with ok i show ?thesis
      by (simp add: removeCaller_def Let_def store_ok_delete_updated)
  next
    case False
    from host_first_caller_removed[OF hf fnd False] ok i False show ?thesis
      by (simp add: removeCaller_def Let_def store_ok_update)
  qed
qed

lemma store_ok_leaveRoom: "store_ok s \<Longrightarrow> store_ok (fst (leaveRoom s c))"
  by (cases "findPlayerRoom s c")
     (auto simp: leaveRoom_def store_ok_removeCaller)

lemma store_ok_disconnect: "store_ok s \<Longrightarrow> store_ok (fst (disconnect s c))"
  by (cases "findPlayerRoom s c")
     (auto simp: disconnect_def store_ok_removeCaller)

text \<open>
  The handlers that write back the room they found with the same id and a players list
  that still has the host first.
\<close>

lemma store_ok_found_update:
  assumes ok: "store_ok s"
    and fp: "findPlayerRoom s c = Some (i, room, player)"
    and idr: "id_r room' = id_r room"
    and hf: "host_first (players room) \<Longrightarrow> host_first (players room')"
  shows "store_ok (s[i := room'])"
proof -
  from findPlayerRoom_Some[OF fp] have i: "i < length s" "s ! i = room" by simp_all
  from store_ok_nth[OF ok i(1)] i(2) have "host_first (players room)" by simp
  with hf have "host_first (players room')" by simp
  with ok i idr show ?thesis by (simp add: store_ok_update)
qed

lemma store_ok_toggleReady: "store_ok s \<Longrightarrow> store_ok (fst (toggleReady s c))"
  by (cases "findPlayerRoom s c")
     (auto simp: toggleReady_def Let_def host_first_updateFirst
           intro!: store_ok_found_update)

lemma store_ok_startGame: "store_ok s \<Longrightarrow> store_ok (fst (startGame s c))"
  by (cases "findPlayerRoom s c")
     (auto simp: startGame_def Let_def intro!: store_ok_found_update)

lemma store_ok_submitSentence: "store_ok s \<Longrightarrow> store_ok (fst (submitSentence s c txt))"
  by (cases "findPlayerRoom s c")
     (auto simp: submitSentence_def Let_def intro!: store_ok_found_update)

lemma store_ok_submitDrawing: "store_ok s \<Longrightarrow> store_ok (fst (submitDrawing s c img))"
  by (cases "findPlayerRoom s c")
     (auto simp: submitDrawing_def Let_def intro!: store_ok_found_update)

lemma store_ok_updateRoomSettings:
  "store_ok s \<Longrightarrow> store_ok (fst (updateRoomSettings s c mr))"
  by (cases "findPlayerRoom s c")
     (auto simp: updateRoomSettings_def Let_def split: option.splits
           intro!: store_ok_found_update)

lemma store_ok_kickPlayer:
  assumes ok: "store_ok s"
  shows "store_ok (fst (kickPlayer s c t))"
proof (cases "findPlayerRoom s c")
  case None
  with ok show ?thesis by (simp add: kickPlayer_def)
next
  case (Some irp)
  obtain i room player where irp: "irp = (i, room, player)" by (cases irp)
  note fp = Some[unfolded irp]
  from findPlayerRoom_Some[OF fp]
  have fnd: "find (\<lambda>p. id_p p = c) (players room) = Some player" by simp
  have "store_ok (s[i := room \<lparr> players := removeAt (\<lambda>p. id_p p = t) (players room) \<rparr>])"
    if "isHost player" "t \<noteq> c"
    using ok fp
  proof (rule store_ok_found_update)
    show "id_r (room \<lparr> players := removeAt (\<lambda>p. id_p p = t) (players room) \<rparr>) = id_r room"
      by simp
    assume "host_first (players room)"
    from host_first_kicked[OF this fnd that]
    show "host_first (players (room \<lparr> players := removeAt (\<lambda>p. id_p p = t) (players room) \<rparr>))"
      by simp
  qed
  with ok fp show ?thesis
    by (simp add: kickPlayer_def Let_def)
qed

lemma store_ok_toggleRoomLock: "store_ok s \<Longrightarrow> store_ok (fst (toggleRoomLock s c))"
  by (cases "findPlayerRoom s c")
     (auto simp: toggleRoomLock_def Let_def intro!: store_ok_found_update)

lemma store_ok_startPresentation: "store_ok s \<Longrightarrow> store_ok (fst (startPresentation s c))"
  by (cases "findPlayerRoom s c")
     (auto simp: startPresentation_def Let_def intro!: store_ok_found_update)

lemma store_ok_showResult: "store_ok s \<Longrightarrow> store_ok (fst (showResult s c index))"
  by (cases "findPlayerRoom s c")
     (auto simp: showResult_def Let_def intro!: store_ok_found_update)

lemma store_ok_endPresentation: "store_ok s \<Longrightarrow> store_ok (fst (endPresentation s c))"
  by (cases "findPlayerRoom s c")
     (auto simp: endPresentation_def Let_def intro!: store_ok_found_update)

lemma store_ok_resetGame: "store_ok s \<Longrightarrow> store_ok (fst (resetGame s c))"
  by (cases "findPlayerRoom s c")
     (auto simp: resetGame_def Let_def host_first_map intro!: store_ok_found_update)

lemma store_ok_step: "store_ok s \<Longrightarrow> store_ok (fst (step s c e))"
  by (cases e)
     (simp_all add: store_ok_createRoom store_ok_joinRoom store_ok_leaveRoom
        store_ok_disconnect store_ok_toggleReady store_ok_startGame store_ok_submitSentence
        store_ok_submitDrawing store_ok_updateRoomSettings store_ok_kickPlayer
        store_ok_toggleRoomLock store_ok_startPresentation store_ok_showResult
        store_ok_endPresentation store_ok_resetGame)

lemma store_ok_run_from: "store_ok s \<Longrightarrow> store_ok (run_from s evs)"
  by (induction evs arbitrary: s) (auto simp: store_ok_step)

lemma store_ok_run: "store_ok (run evs)"
  unfolding run_def by (rule store_ok_run_from) (simp add: store_ok_def)

section \<open>What one event can do to the store\<close>

lemma found_update_id:
  "findPlayerRoom s c = Some (i, room, player) \<Longrightarrow> s[i := room] = s"
  by (drule findPlayerRoom_Some) (auto simp: list_update_same_conv)

lemma removeCaller_shape:
  "(\<exists>r'. id_r r' = id_r room \<and> fst (removeCaller pre s c i room player) = s[i := r']) \<or>
   (removeAt (\<lambda>p. id_p p = c) (players room) = [] \<and>
    fst (removeCaller pre s c i room player)
      = rooms_delete (id_r room) (s[i := room \<lparr> players := [] \<rparr>]))"
proof (cases "removeAt (\<lambda>p. id_p p = c) (players room) = []")
  case True
  then show ?thesis by (simp add: removeCaller_def Let_def)
next
  case False
  define ps where "ps = removeAt (\<lambda>p. id_p p = c) (players room)"
  define r' where "r' = room \<lparr> players :=
      (if isHost player \<and> length ps > 0 then ps[0 := (ps ! 0) \<lparr> isHost := True \<rparr>] else ps) \<rparr>"
  have "id_r r' = id_r room" by (simp add: r'_def)
  moreover have "fst (removeCaller pre s c i room player) = s[i := r']"
    using False by (simp add: removeCaller_def Let_def r'_def ps_def)
  ultimately show ?thesis by blast
qed

text \<open>
  An event that looks the caller up and finds it in a room either writes that room back
  in place, with its id, or (leave-room and disconnect by the room's only player) deletes
  it by its id.
\<close>

lemma step_found_shape:
  assumes fp: "findPlayerRoom s c = Some (i, room, player)"
    and ne: "\<not> enters_room e"
  shows "(\<exists>r'. id_r r' = id_r room \<and> fst (step s c e) = s[i := r']) \<or>
         ((e = LeaveRoom \<or> e = Disconnect) \<and>
          removeAt (\<lambda>p. id_p p = c) (players room) = [] \<and>
          fst (step s c e) = rooms_delete (id_r room) (s[i := room \<lparr> players := [] \<rparr>]))"
proof -
  note same = found_update_id[OF fp]
  have keep: "\<exists>r'. id_r r' = id_r room \<and> s = s[i := r']"
    using same by metis
  have upd: "id_r r' = id_r room \<Longrightarrow> \<exists>r''. id_r r'' = id_r room \<and> s[i := r'] = s[i := r'']" for r'
    by blast
  show ?thesis
  proof (cases e)
    case LeaveRoom
    with removeCaller_shape[where room=room and pre="[Leave c (id_r room)]" and s=s and c=c
        and i=i and player=player] fp
    show ?thesis
      by (simp add: leaveRoom_def)
  next
    case Disconnect
    with removeCaller_shape[where room=room and pre="[]" and s=s and c=c
        and i=i and player=player] fp
    show ?thesis
      by (simp add: disconnect_def)
  next
    case ToggleReady
    with fp upd show ?thesis by (simp add: toggleReady_def Let_def)
  next
    case StartGame
    with fp upd keep show ?thesis by (simp add: startGame_def Let_def)
  next
    case (SubmitSentence x)
    with fp upd keep show ?thesis by (simp add: submitSentence_def Let_def)
  next
    case (SubmitDrawing img)
    with fp upd keep show ?thesis by (simp add: submitDrawing_def Let_def)
  next
    case (UpdateRoomSettings mr)
    with fp upd keep show ?thesis
      by (simp add: updateRoomSettings_def Let_def split: option.splits)
  next
    case (KickPlayer t)
    with fp upd keep show ?thesis by (simp add: kickPlayer_def Let_def)
  next
    case ToggleRoomLock
    with fp upd keep show ?thesis by (simp add: toggleRoomLock_def Let_def)
  next
    case StartPresentation
    with fp upd keep show ?thesis by (simp add: startPresentation_def Let_def)
  next
    case (ShowResult index)
    with fp upd keep show ?thesis by (simp add: showResult_def Let_def)
  next
    case EndPresentation
    with fp upd keep show ?thesis by (simp add: endPresentation_def Let_def)
  next
    case ResetGame
    with fp upd keep show ?thesis by (simp add: resetGame_def Let_def)
  next
    case Connect
    with keep show ?thesis by simp
  next
    case GetActiveRooms
    with keep show ?thesis by simp
  next
    case (CreateRoom nick pic draws roomId now)
    with ne show ?thesis by simp
  next
    case (JoinRoom roomCode nick pic)
    with ne show ?thesis by simp
  qed
qed

lemma step_not_found:
  assumes "findPlayerRoom s c = None" and "\<not> enters_room e"
  shows "fst (step s c e) = s"
  using assms
  by (cases e)
     (simp_all add: leaveRoom_def disconnect_def toggleReady_def startGame_def
        submitSentence_def submitDrawing_def updateRoomSettings_def kickPlayer_def
        toggleRoomLock_def startPresentation_def showResult_def endPresentation_def
        resetGame_def)

lemma ids_update:
  "i < length s \<Longrightarrow> id_r r = id_r (s ! i) \<Longrightarrow> id_r ` set (s[i := r]) = id_r ` set s"
  using map_id_update[of i s r] by (metis set_map)

lemma ids_found_update:
  assumes "findPlayerRoom s c = Some (i, room, player)" and "id_r r' = id_r room"
  shows "id_r ` set (s[i := r']) = id_r ` set s"
  using findPlayerRoom_Some[OF assms(1)] assms(2) by (simp add: ids_update)

lemma ids_delete: "id_r ` set (rooms_delete k s) = id_r ` set s - {k}"
  by (auto simp: rooms_delete_def)

lemma ids_createRoom:
  "id_r ` set s \<subseteq> id_r ` set (fst (createRoom s c nick pic draws roomId now))"
proof (cases "generateRoomCode s draws")
  case None
  then show ?thesis by (simp add: createRoom_def)
next
  case (Some roomCode)
  show ?thesis
  proof (cases "findIndex (\<lambda>r. id_r r = roomId) s")
    case None
    with Some show ?thesis by (auto simp: createRoom_def Let_def rooms_set_def)
  next
    case (Some i)
    from findIndex_Some[OF Some] have "i < length s" "id_r (s ! i) = roomId" by simp_all
    then show ?thesis using Some \<open>generateRoomCode s draws = Some roomCode\<close>
      by (simp add: createRoom_def Let_def rooms_set_def ids_update)
  qed
qed

lemma ids_joinRoom: "id_r ` set (fst (joinRoom s c roomCode nick pic)) = id_r ` set s"
proof (cases "findRoomByCode s roomCode")
  case None
  then show ?thesis by (simp add: joinRoom_def)
next
  case (Some ir)
  obtain i room where ir: "ir = (i, room)" by (cases ir)
  from findRoomByCode_Some[OF Some[unfolded ir]] Some ir show ?thesis
    by (simp add: joinRoom_def Let_def ids_update)
qed

lemma ids_enter: "enters_room e \<Longrightarrow> id_r ` set s \<subseteq> id_r ` set (fst (step s c e))"
  by (cases e) (simp_all add: ids_createRoom ids_joinRoom)

lemma removeAt_Nil_find:
  assumes "find P ps = Some x" and "removeAt P ps = []"
  shows "ps = [x]"
proof (cases ps)
  case Nil
  with assms show ?thesis by simp
next
  case (Cons h t)
  with assms show ?thesis by (cases "P h") (simp_all add: removeAt_Cons)
qed

lemma removeCaller_last:
  assumes "findPlayerRoom s c = Some (i, room, player)" and "players room = [player]"
  shows "fst (removeCaller pre s c i room player)
           = rooms_delete (id_r room) (s[i := room \<lparr> players := [] \<rparr>])"
proof -
  from findPlayerRoom_Some[OF assms(1)] assms(2)
  have "find (\<lambda>p. id_p p = c) [player] = Some player" by simp
  then have "id_p player = c" by (simp split: if_splits)
  with assms(2) show ?thesis
    by (simp add: removeCaller_def Let_def removeAt_Cons)
qed

section \<open>Hosts and room deletion in reachable stores\<close>

text \<open>
  C4. After any sequence of events (create-room, join-room, leave-room, kick-player,
  disconnect and all the others, from any connections), every room of the store that has
  a player has exactly one player with \<open>isHost\<close> set.
\<close>

theorem exactly_one_host:
  "\<forall>r\<in>set (run evs). length (players r) > 0 \<longrightarrow> length (filter isHost (players r)) = 1"
proof
  fix r assume "r \<in> set (run evs)"
  with store_ok_run[of evs] have "host_first (players r)"
    by (simp add: store_ok_def list_all_iff)
  then show "length (players r) > 0 \<longrightarrow> length (filter isHost (players r)) = 1"
    by (simp add: host_first_one)
qed

theorem exactly_one_host_witness:
  "run scenario_alone \<noteq> []
   \<and> length (players (hd (run scenario_alone))) > 0
   \<and> length (filter isHost (players (hd (run scenario_alone)))) = 1"
proof -
  have h1: "run scenario_alone \<noteq> []" by code_simp
  have h2: "length (players (hd (run scenario_alone))) > 0" by code_simp
  from h1 have "hd (run scenario_alone) \<in> set (run scenario_alone)" by simp
  with exactly_one_host[of scenario_alone] h1 h2 show ?thesis by blast
qed

text \<open>
  C5. After any sequence of events every room of the store has at least one player. And
  for any next event: a room id of the store is gone afterwards exactly when the event
  is leave-room or disconnect from a connection that the lookup finds in that room as
  its only player. So a room is deleted the moment its last player is removed, kick
  never deletes one (the host who kicks stays), and nothing else deletes a room.
\<close>

theorem room_present_iff_has_player:
  "(\<forall>r\<in>set (run evs). length (players r) > 0) \<and>
   (\<forall>k\<in>id_r ` set (run evs).
      k \<notin> id_r ` set (fst (step (run evs) c e)) \<longleftrightarrow>
        (e = LeaveRoom \<or> e = Disconnect) \<and>
        (\<exists>i room player. findPlayerRoom (run evs) c = Some (i, room, player) \<and>
                          id_r room = k \<and> players room = [player]))"
proof (intro conjI ballI)
  fix r assume "r \<in> set (run evs)"
  with store_ok_run[of evs] have "host_first (players r)"
    by (simp add: store_ok_def list_all_iff)
  then show "length (players r) > 0" by (cases "players r") (simp_all add: host_first_Nil)
next
  fix k assume k: "k \<in> id_r ` set (run evs)"
  define s where "s = run evs"
  have "k \<notin> id_r ` set (fst (step s c e)) \<longleftrightarrow>
        (e = LeaveRoom \<or> e = Disconnect) \<and>
        (\<exists>i room player. findPlayerRoom s c = Some (i, room, player) \<and>
                          id_r room = k \<and> players room = [player])" (is "?gone \<longleftrightarrow> ?last")
  proof
    assume gone: ?gone
    have ne: "\<not> enters_room e"
      using gone k ids_enter[of e s c] by (auto simp: s_def)
    show ?last
    proof (cases "findPlayerRoom s c")
      case None
      from step_not_found[OF None ne] gone k show ?thesis by (simp add: s_def)
    next
      case (Some irp)
      obtain i room player where irp: "irp = (i, room, player)" by (cases irp)
      note fp = Some[unfolded irp]
      from step_found_shape[OF fp ne] show ?thesis
      proof
        assume "\<exists>r'. id_r r' = id_r room \<and> fst (step s c e) = s[i := r']"
        then obtain r' where "id_r r' = id_r room" "fst (step s c e) = s[i := r']" by blast
        with ids_found_update[OF fp this(1)] gone k show ?thesis by (simp add: s_def)
      next
        assume del: "(e = LeaveRoom \<or> e = Disconnect) \<and>
          removeAt (\<lambda>p. id_p p = c) (players room) = [] \<and>
          fst (step s c e) = rooms_delete (id_r room) (s[i := room \<lparr> players := [] \<rparr>])"
        have "id_r ` set (s[i := room \<lparr> players := [] \<rparr>]) = id_r ` set s"
          by (rule ids_found_update[OF fp]) simp
        with del have "id_r ` set (fst (step s c e)) = id_r ` set s - {id_r room}"
          by (simp add: ids_delete)
        with gone k have kk: "id_r room = k" by (auto simp: s_def)
        from findPlayerRoom_Some[OF fp]
        have "find (\<lambda>p. id_p p = c) (players room) = Some player" by simp
        from removeAt_Nil_find[OF this] del have "players room = [player]" by simp
        with del kk fp show ?thesis by blast
      qed
    qed
  next
    assume ?last
    then obtain i room player where ev: "e = LeaveRoom \<or> e = Disconnect"
      and fp: "findPlayerRoom s c = Some (i, room, player)"
      and kk: "id_r room = k" and one: "players room = [player]" by blast
    from ev fp removeCaller_last[OF fp one]
    have "fst (step s c e) = rooms_delete k (s[i := room \<lparr> players := [] \<rparr>])"
      by (auto simp: leaveRoom_def disconnect_def kk)
    then show ?gone by (simp add: ids_delete)
  qed
  then show "k \<notin> id_r ` set (fst (step (run evs) c e)) \<longleftrightarrow>
        (e = LeaveRoom \<or> e = Disconnect) \<and>
        (\<exists>i room player. findPlayerRoom (run evs) c = Some (i, room, player) \<and>
                          id_r room = k \<and> players room = [player])"
    by (simp add: s_def)
qed

theorem room_present_iff_has_player_witness:
  "map id_r (run scenario_alone) = [''room-1'']
   \<and> length (players (hd (run scenario_alone))) > 0
   \<and> findPlayerRoom (run scenario_alone) ''alice''
       = Some (0, hd (run scenario_alone), hd (players (hd (run scenario_alone))))
   \<and> players (hd (run scenario_alone)) = [hd (players (hd (run scenario_alone)))]
   \<and> ''room-1'' \<notin> id_r ` set (fst (step (run scenario_alone) ''alice'' Disconnect))
   \<and> ''room-1'' \<in> id_r ` set (fst (step (run scenario_alone) ''alice'' StartGame))"
proof -
  have h1: "map id_r (run scenario_alone) = [''room-1'']" by code_simp
  have h2: "findPlayerRoom (run scenario_alone) ''alice''
       = Some (0, hd (run scenario_alone), hd (players (hd (run scenario_alone))))"
    by code_simp
  have h3: "players (hd (run scenario_alone)) = [hd (players (hd (run scenario_alone)))]"
    by code_simp
  have h4: "id_r (hd (run scenario_alone)) = ''room-1''" by code_simp
  from h1 have ne: "run scenario_alone \<noteq> []" by auto
  then have mem: "hd (run scenario_alone) \<in> set (run scenario_alone)" by simp
  with h4 have k: "''room-1'' \<in> id_r ` set (run scenario_alone)" by force
  note inst = room_present_iff_has_player[of scenario_alone]
  from inst[of "''alice''" Disconnect] mem
  have a: "length (players (hd (run scenario_alone))) > 0" by blast
  from inst[of "''alice''" Disconnect] k h2 h3 h4
  have b: "''room-1'' \<notin> id_r ` set (fst (step (run scenario_alone) ''alice'' Disconnect))"
    by blast
  from inst[of "''alice''" StartGame] k
  have c: "''room-1'' \<in> id_r ` set (fst (step (run scenario_alone) ''alice'' StartGame))"
    by blast
  from h1 a h2 h3 b c show ?thesis by blast
qed

section \<open>One connection in two rooms\<close>

lemma other_room_kept:
  assumes ok: "store_ok s"
    and fp: "findPlayerRoom s c = Some (i, room, player)"
    and ne: "\<not> enters_room e"
    and j: "j < length s" "j \<noteq> i"
  shows "s ! j \<in> set (fst (step s c e))"
proof -
  from findPlayerRoom_Some[OF fp] have i: "i < length s" "s ! i = room" by simp_all
  from ok have "distinct (map id_r s)" by (simp add: store_ok_def)
  with i j have diff: "id_r (s ! j) \<noteq> id_r room"
    by (metis length_map nth_eq_iff_index_eq nth_map)
  have kept: "s ! j \<in> set (s[i := x])" for x
    using j by (metis length_list_update nth_list_update_neq nth_mem)
  from step_found_shape[OF fp ne] show ?thesis
  proof
    assume "\<exists>r'. id_r r' = id_r room \<and> fst (step s c e) = s[i := r']"
    with kept show ?thesis by auto
  next
    assume "(e = LeaveRoom \<or> e = Disconnect) \<and>
      removeAt (\<lambda>p. id_p p = c) (players room) = [] \<and>
      fst (step s c e) = rooms_delete (id_r room) (s[i := room \<lparr> players := [] \<rparr>])"
    with kept diff show ?thesis by (simp add: rooms_delete_def)
  qed
qed

text \<open>
  C10. There is a run after which one connection is a player of two rooms at once: in
  \<open>scenario_two_rooms\<close> Alice is in the players list of both rooms of the store.
  Neither handler looks at the caller's membership: join-room on an unlocked lobby room
  appends the caller whatever the store holds, and create-room puts the new room with the
  caller as its player whenever a free code was drawn. In any reachable store, an event
  other than these two, from a connection that the lookup finds, finds it in the first
  room in store order that lists it, and every room at another position is still in the
  store afterwards exactly as it was.
\<close>

theorem connection_in_two_rooms:
  "(length (run scenario_two_rooms) = 2 \<and>
    ''alice'' \<in> id_p ` set (players (run scenario_two_rooms ! 0)) \<and>
    ''alice'' \<in> id_p ` set (players (run scenario_two_rooms ! 1))) \<and>
   (\<forall>s c roomCode nick pic j roomB.
      findRoomByCode s roomCode = Some (j, roomB) \<and> \<not> locked roomB \<and> gameState roomB = Lobby
      \<longrightarrow> fst (step s c (JoinRoom roomCode nick pic))
            = s[j := roomB \<lparr> players := players roomB @
                 [\<lparr> id_p = c, nickname = nick, profilePic = pic,
                    isHost = False, isReady = False \<rparr>] \<rparr>]) \<and>
   (\<forall>s c nick pic draws roomId now roomCode.
      generateRoomCode s draws = Some roomCode
      \<longrightarrow> fst (step s c (CreateRoom nick pic draws roomId now))
            = rooms_set roomId
                \<lparr> id_r = roomId, code = roomCode,
                  players = [\<lparr> id_p = c, nickname = nick, profilePic = pic,
                               isHost = True, isReady = False \<rparr>],
                  gameState = Lobby, currentRound = 0, maxRounds = 3, createdAt = now,
                  locked = False, sentences = [], drawings = [],
                  presentationMode = \<lparr> active = False, currentIndex = 0 \<rparr> \<rparr> s) \<and>
   (\<forall>evs c e i room player.
      findPlayerRoom (run evs) c = Some (i, room, player) \<and> \<not> enters_room e
      \<longrightarrow> c \<in> id_p ` set (players (run evs ! i)) \<and>
          (\<forall>j<i. c \<notin> id_p ` set (players (run evs ! j))) \<and>
          (\<forall>j<length (run evs). j \<noteq> i \<longrightarrow> run evs ! j \<in> set (fst (step (run evs) c e))))"
proof -
  have len: "length (run scenario_two_rooms) = 2" by code_simp
  have "map id_p (players (run scenario_two_rooms ! 0)) = [''alice'']" by code_simp
  then have "''alice'' \<in> set (map id_p (players (run scenario_two_rooms ! 0)))" by simp
  then have in0: "''alice'' \<in> id_p ` set (players (run scenario_two_rooms ! 0))" by simp
  have "map id_p (players (run scenario_two_rooms ! 1)) = [''bob'', ''alice'']" by code_simp
  then have "''alice'' \<in> set (map id_p (players (run scenario_two_rooms ! 1)))" by simp
  then have in1: "''alice'' \<in> id_p ` set (players (run scenario_two_rooms ! 1))" by simp
  have join: "fst (step s c (JoinRoom roomCode nick pic))
            = s[j := roomB \<lparr> players := players roomB @
                 [\<lparr> id_p = c, nickname = nick, profilePic = pic,
                    isHost = False, isReady = False \<rparr>] \<rparr>]"
    if "findRoomByCode s roomCode = Some (j, roomB) \<and> \<not> locked roomB \<and> gameState roomB = Lobby"
    for s c roomCode nick pic j roomB
    using that by (simp add: joinRoom_def Let_def)
  have create: "fst (step s c (CreateRoom nick pic draws roomId now))
            = rooms_set roomId
                \<lparr> id_r = roomId, code = roomCode,
                  players = [\<lparr> id_p = c, nickname = nick, profilePic = pic,
                               isHost = True, isReady = False \<rparr>],
                  gameState = Lobby, currentRound = 0, maxRounds = 3, createdAt = now,
                  locked = False, sentences = [], drawings = [],
                  presentationMode = \<lparr> active = False, currentIndex = 0 \<rparr> \<rparr> s"
    if "generateRoomCode s draws = Some roomCode"
    for s c nick pic draws roomId now roomCode
    using that by (simp add: createRoom_def Let_def)
  have later: "c \<in> id_p ` set (players (run evs ! i)) \<and>
          (\<forall>j<i. c \<notin> id_p ` set (players (run evs ! j))) \<and>
          (\<forall>j<length (run evs). j \<noteq> i \<longrightarrow> run evs ! j \<in> set (fst (step (run evs) c e)))"
    if a: "findPlayerRoom (run evs) c = Some (i, room, player) \<and> \<not> enters_room e"
    for evs c e i room player
  proof -
    from a have fp: "findPlayerRoom (run evs) c = Some (i, room, player)" by simp
    from findPlayerRoom_Some[OF fp]
    have i: "run evs ! i = room"
      and fnd: "find (\<lambda>p. id_p p = c) (players room) = Some player"
      and first: "\<forall>j<i. find (\<lambda>p. id_p p = c) (players (run evs ! j)) = None" by simp_all
    from find_SomeD[OF fnd] i have "c \<in> id_p ` set (players (run evs ! i))" by auto
    moreover from first have "\<forall>j<i. c \<notin> id_p ` set (players (run evs ! j))"
      by (auto simp: find_None_iff)
    moreover from a
    have "\<forall>j<length (run evs). j \<noteq> i \<longrightarrow> run evs ! j \<in> set (fst (step (run evs) c e))"
      using other_room_kept[OF store_ok_run, of evs c i room player e] by blast
    ultimately show ?thesis by blast
  qed
  show ?thesis
  proof (intro conjI)
    show "length (run scenario_two_rooms) = 2" by (rule len)
    show "''alice'' \<in> id_p ` set (players (run scenario_two_rooms ! 0))" by (rule in0)
    show "''alice'' \<in> id_p ` set (players (run scenario_two_rooms ! 1))" by (rule in1)
  qed (intro allI impI, rule join, assumption,
       intro allI impI, rule create, assumption,
       intro allI impI, rule later, assumption)
qed

theorem connection_in_two_rooms_witness:
  "findPlayerRoom (run scenario_two_rooms) ''alice''
     = Some (0, run scenario_two_rooms ! 0, hd (players (run scenario_two_rooms ! 0)))
   \<and> \<not> enters_room ToggleReady
   \<and> ''alice'' \<in> id_p ` set (players (run scenario_two_rooms ! 1))
   \<and> run scenario_two_rooms ! 1 \<in> set (fst (step (run scenario_two_rooms) ''alice'' ToggleReady))
   \<and> map isReady (players (fst (step (run scenario_two_rooms) ''alice'' ToggleReady) ! 0)) = [True]
   \<and> map isReady (players (fst (step (run scenario_two_rooms) ''alice'' ToggleReady) ! 1))
       = [False, False]"
proof -
  have h1: "findPlayerRoom (run scenario_two_rooms) ''alice''
     = Some (0, run scenario_two_rooms ! 0, hd (players (run scenario_two_rooms ! 0)))"
    by code_simp
  have h2: "\<not> enters_room ToggleReady" by simp
  have h3: "map isReady (players (fst (step (run scenario_two_rooms) ''alice'' ToggleReady) ! 0))
              = [True]"
    by code_simp
  have h4: "map isReady (players (fst (step (run scenario_two_rooms) ''alice'' ToggleReady) ! 1))
              = [False, False]"
    by code_simp
  have h5: "(1::nat) < length (run scenario_two_rooms)"
    using connection_in_two_rooms by simp
  have h6: "''alice'' \<in> id_p ` set (players (run scenario_two_rooms ! 1))"
    using connection_in_two_rooms by blast
  have "run scenario_two_rooms ! 1 \<in> set (fst (step (run scenario_two_rooms) ''alice'' ToggleReady))"
    using connection_in_two_rooms h1 h2 h5 by (metis zero_neq_one)
  with h1 h2 h3 h4 h6 show ?thesis by blast
qed

section \<open>Starting the game\<close>

text \<open>
  C2, as the code has it. The handler's readiness check is
  \<^verbatim>\<open>room.players.every(p => p.isReady || p.id === player.id)\<close>: the caller is exempt. So
  in the room of Scenario A, with Bob ready and the host Alice not, Alice's start-game
  succeeds at once.
\<close>

theorem start_game_unready_host_counterexample:
  "length (players (run scenario_ready ! 0)) = 2
   \<and> id_p (players (run scenario_ready ! 0) ! 0) = ''alice''
   \<and> isHost (players (run scenario_ready ! 0) ! 0)
   \<and> \<not> isReady (players (run scenario_ready ! 0) ! 0)
   \<and> \<not> isHost (players (run scenario_ready ! 0) ! 1)
   \<and> isReady (players (run scenario_ready ! 0) ! 1)
   \<and> gameState (run scenario_ready ! 0) = Lobby
   \<and> gameState (fst (step (run scenario_ready) ''alice'' StartGame) ! 0) = Writing
   \<and> currentRound (fst (step (run scenario_ready) ''alice'' StartGame) ! 0) = 1"
  by code_simp

text \<open>
  C2 amended. The host of a room with at least two players sends start-game. If every
  player with another id is ready, the game starts, whether the host is ready or not:
  the room gets phase writing and round 1 and nothing else in the store changes. If some
  player with another id is not ready, the store is unchanged and the caller gets the
  error.
\<close>

theorem start_game_needs_others_ready_only:
  assumes fp: "findPlayerRoom s c = Some (i, room, player)"
    and host: "isHost player"
    and two: "length (players room) \<ge> 2"
  shows "((\<forall>p\<in>set (players room). id_p p \<noteq> c \<longrightarrow> isReady p) \<longrightarrow>
            fst (step s c StartGame) = s[i := room \<lparr> gameState := Writing, currentRound := 1 \<rparr>]) \<and>
         ((\<exists>p\<in>set (players room). id_p p \<noteq> c \<and> \<not> isReady p) \<longrightarrow>
            step s c StartGame = (s, [Emit (Only c) (Error ''Not all players are ready'')]))"
proof -
  from findPlayerRoom_Some[OF fp]
  have "find (\<lambda>p. id_p p = c) (players room) = Some player" by simp
  from find_SomeD[OF this] have idc: "id_p player = c" by simp
  have all: "list_all (\<lambda>p. isReady p \<or> id_p p = id_p player) (players room)
               \<longleftrightarrow> (\<forall>p\<in>set (players room). id_p p \<noteq> c \<longrightarrow> isReady p)"
    by (auto simp: list_all_iff idc)
  show ?thesis
  proof (cases "\<forall>p\<in>set (players room). id_p p \<noteq> c \<longrightarrow> isReady p")
    case True
    with all have "list_all (\<lambda>p. isReady p \<or> id_p p = id_p player) (players room)" by simp
    with fp host two True show ?thesis
      by (auto simp: startGame_def Let_def)
  next
    case False
    with all have "\<not> list_all (\<lambda>p. isReady p \<or> id_p p = id_p player) (players room)" by simp
    with fp host False show ?thesis
      by (auto simp: startGame_def)
  qed
qed

theorem start_game_needs_others_ready_only_witness:
  "findPlayerRoom (run scenario_ready) ''alice''
     = Some (0, run scenario_ready ! 0, hd (players (run scenario_ready ! 0)))
   \<and> isHost (hd (players (run scenario_ready ! 0)))
   \<and> \<not> isReady (hd (players (run scenario_ready ! 0)))
   \<and> length (players (run scenario_ready ! 0)) = 2
   \<and> list_all (\<lambda>p. id_p p \<noteq> ''alice'' \<longrightarrow> isReady p) (players (run scenario_ready ! 0))
   \<and> fst (step (run scenario_ready) ''alice'' StartGame)
       = (run scenario_ready)[0 := (run scenario_ready ! 0) \<lparr> gameState := Writing, currentRound := 1 \<rparr>]"
proof -
  have h1: "findPlayerRoom (run scenario_ready) ''alice''
     = Some (0, run scenario_ready ! 0, hd (players (run scenario_ready ! 0)))"
    by code_simp
  have h2: "isHost (hd (players (run scenario_ready ! 0)))" by code_simp
  have h3: "\<not> isReady (hd (players (run scenario_ready ! 0)))" by code_simp
  have h4: "length (players (run scenario_ready ! 0)) = 2" by code_simp
  have h5: "list_all (\<lambda>p. id_p p \<noteq> ''alice'' \<longrightarrow> isReady p) (players (run scenario_ready ! 0))"
    by code_simp
  from h4 have h4': "length (players (run scenario_ready ! 0)) \<ge> 2" by simp
  from h5 have h5': "\<forall>p\<in>set (players (run scenario_ready ! 0)). id_p p \<noteq> ''alice'' \<longrightarrow> isReady p"
    by (simp add: list_all_iff)
  from start_game_needs_others_ready_only [OF h1 h2 h4'] h5'
  have "fst (step (run scenario_ready) ''alice'' StartGame)
       = (run scenario_ready)[0 := (run scenario_ready ! 0) \<lparr> gameState := Writing, currentRound := 1 \<rparr>]"
    by blast
  with h1 h2 h3 h4 h5 show ?thesis by blast
qed

text \<open>
  C3, at the input where the code leaves it. The start-game handler does not look at the
  phase. In the drawing phase of round 2, before any drawing of that round, the host's
  start-game puts the room back into the writing phase with round 1: writing follows
  drawing without a full set of drawings and without the round going up.
\<close>

theorem start_game_in_drawing_phase:
  "gameState (run scenario_round2_drawing ! 0) = Drawing
   \<and> currentRound (run scenario_round2_drawing ! 0) = 2
   \<and> map round_d (drawings (run scenario_round2_drawing ! 0)) = [1, 1]
   \<and> gameState (fst (step (run scenario_round2_drawing) ''alice'' StartGame) ! 0) = Writing
   \<and> currentRound (fst (step (run scenario_round2_drawing) ''alice'' StartGame) ! 0) = 1"
  by code_simp

section \<open>Submissions are gated by the phase only\<close>

text \<open>
  C1, as the code has it. The submit handlers test the phase and nothing else, so a
  player who submits twice before the phase changes has two entries with the same round.
  Here Alice's second sentence also completes the count of two and moves the room to the
  drawing phase, though Bob has not submitted.
\<close>

theorem two_sentences_same_round_counterexample:
  "map playerId_s (sentences (run scenario_double_submit ! 0)) = [''alice'', ''alice'']
   \<and> map round_s (sentences (run scenario_double_submit ! 0)) = [1, 1]
   \<and> map id_p (players (run scenario_double_submit ! 0)) = [''alice'', ''bob'']
   \<and> gameState (run scenario_double_submit ! 0) = Drawing"
  by code_simp

text \<open>
  C1 amended. A submit-sentence event that arrives in the writing phase appends exactly
  one sentence, tagged with the caller and the current round, whether or not the caller
  already has one for that round, and leaves the drawings alone; in any other phase it
  leaves the store unchanged. The same holds for submit-drawing and the drawing phase.
\<close>

theorem submissions_gated_by_phase_only:
  assumes fp: "findPlayerRoom s c = Some (i, room, player)"
  shows "(gameState room = Writing \<longrightarrow>
            sentences (fst (step s c (SubmitSentence x)) ! i)
              = sentences room @ [\<lparr> playerId_s = c, text_s = x, round_s = currentRound room \<rparr>] \<and>
            drawings (fst (step s c (SubmitSentence x)) ! i) = drawings room) \<and>
         (gameState room \<noteq> Writing \<longrightarrow> fst (step s c (SubmitSentence x)) = s) \<and>
         (gameState room = Drawing \<longrightarrow>
            drawings (fst (step s c (SubmitDrawing y)) ! i)
              = drawings room @ [\<lparr> playerId_d = c, imageData = y, round_d = currentRound room \<rparr>] \<and>
            sentences (fst (step s c (SubmitDrawing y)) ! i) = sentences room) \<and>
         (gameState room \<noteq> Drawing \<longrightarrow> fst (step s c (SubmitDrawing y)) = s)"
proof -
  from findPlayerRoom_Some[OF fp] have i: "i < length s" by simp
  show ?thesis using fp i
    by (simp add: submitSentence_def submitDrawing_def Let_def)
qed

theorem submissions_gated_by_phase_only_witness:
  "findPlayerRoom (run scenario_writing) ''alice''
     = Some (0, run scenario_writing ! 0, hd (players (run scenario_writing ! 0)))
   \<and> gameState (run scenario_writing ! 0) = Writing
   \<and> currentRound (run scenario_writing ! 0) = 1
   \<and> sentences (fst (step (run scenario_writing) ''alice'' (SubmitSentence ''a'')) ! 0)
       = sentences (run scenario_writing ! 0)
           @ [\<lparr> playerId_s = ''alice'', text_s = ''a'', round_s = 1 \<rparr>]
   \<and> fst (step (run scenario_writing) ''alice'' (SubmitDrawing ''x'')) = run scenario_writing"
proof -
  have h1: "findPlayerRoom (run scenario_writing) ''alice''
     = Some (0, run scenario_writing ! 0, hd (players (run scenario_writing ! 0)))"
    by code_simp
  have h2: "gameState (run scenario_writing ! 0) = Writing" by code_simp
  have h3: "currentRound (run scenario_writing ! 0) = 1" by code_simp
  from submissions_gated_by_phase_only [OF h1, of "''a''" "''x''"] h2 h3
  have "sentences (fst (step (run scenario_writing) ''alice'' (SubmitSentence ''a'')) ! 0)
       = sentences (run scenario_writing ! 0)
           @ [\<lparr> playerId_s = ''alice'', text_s = ''a'', round_s = 1 \<rparr>]
     \<and> fst (step (run scenario_writing) ''alice'' (SubmitDrawing ''x'')) = run scenario_writing"
    by simp
  with h1 h2 h3 show ?thesis by blast
qed

section \<open>Phase changes\<close>

text \<open>
  Apart from start-game, the phase changes follow the cycle. When an event other than leave-room
  and disconnect (which never touch the phase) changes the phase of the caller's room, it
  is start-game (to writing, round 1, from any phase), a submit-sentence in the writing
  phase (to drawing), a submit-drawing in the drawing phase (to results at
  \<open>currentRound \<ge> maxRounds\<close>, else to writing with the round one higher), or reset-game
  (to lobby).
\<close>

lemma phase_change_cases:
  assumes fp: "findPlayerRoom s c = Some (i, room, player)"
    and ev: "\<not> enters_room e" "e \<noteq> LeaveRoom" "e \<noteq> Disconnect"
    and ch: "gameState (fst (step s c e) ! i) \<noteq> gameState room"
  shows "(e = StartGame \<and> gameState (fst (step s c e) ! i) = Writing \<and>
            currentRound (fst (step s c e) ! i) = 1) \<or>
         (\<exists>x. e = SubmitSentence x \<and> gameState room = Writing \<and>
            gameState (fst (step s c e) ! i) = Drawing \<and>
            currentRound (fst (step s c e) ! i) = currentRound room) \<or>
         (\<exists>y. e = SubmitDrawing y \<and> gameState room = Drawing \<and>
            (if currentRound room \<ge> maxRounds room
             then gameState (fst (step s c e) ! i) = Results \<and>
                  currentRound (fst (step s c e) ! i) = currentRound room
             else gameState (fst (step s c e) ! i) = Writing \<and>
                  currentRound (fst (step s c e) ! i) = currentRound room + 1)) \<or>
         (e = ResetGame \<and> gameState (fst (step s c e) ! i) = Lobby)"
proof -
  from findPlayerRoom_Some[OF fp] have i: "i < length s" "s ! i = room" by simp_all
  show ?thesis
  proof (cases e)
    case StartGame
    with fp i ch show ?thesis by (simp add: startGame_def Let_def split: if_splits)
  next
    case (SubmitSentence x)
    with fp i ch show ?thesis by (simp add: submitSentence_def Let_def split: if_splits)
  next
    case (SubmitDrawing y)
    with fp i ch show ?thesis by (simp add: submitDrawing_def Let_def split: if_splits)
  next
    case ResetGame
    with fp i ch show ?thesis by (simp add: resetGame_def Let_def split: if_splits)
  next
    case ToggleReady
    with fp i ch show ?thesis by (simp add: toggleReady_def Let_def)
  next
    case (UpdateRoomSettings mr)
    with fp i ch show ?thesis
      by (simp add: updateRoomSettings_def Let_def split: if_splits option.splits)
  next
    case (KickPlayer t)
    with fp i ch show ?thesis by (simp add: kickPlayer_def Let_def split: if_splits)
  next
    case ToggleRoomLock
    with fp i ch show ?thesis by (simp add: toggleRoomLock_def Let_def split: if_splits)
  next
    case StartPresentation
    with fp i ch show ?thesis by (simp add: startPresentation_def Let_def split: if_splits)
  next
    case (ShowResult index)
    with fp i ch show ?thesis by (simp add: showResult_def Let_def split: if_splits)
  next
    case EndPresentation
    with fp i ch show ?thesis by (simp add: endPresentation_def Let_def split: if_splits)
  next
    case Connect
    with i ch show ?thesis by simp
  next
    case GetActiveRooms
    with i ch show ?thesis by simp
  next
    case LeaveRoom
    with ev show ?thesis by simp
  next
    case Disconnect
    with ev show ?thesis by simp
  next
    case (CreateRoom nick pic draws roomId now)
    with ev show ?thesis by simp
  next
    case (JoinRoom roomCode nick pic)
    with ev show ?thesis by simp
  qed
qed

end
